theory Spec2Isabelle
  imports Main
begin

section \<open>The tracing-collection transience policy (immer/transience/gc\_transience\_policy.hpp)\<close>

subsection \<open>Addresses and the heap policy\<close>

text \<open>
  A \<^verbatim>\<open>void*\<close> is an address; address \<open>0\<close> is \<^verbatim>\<open>nullptr\<close>.
\<close>

type_synonym addr = nat

definition nullptr :: addr where
  "nullptr = 0"

text \<open>
  Modelled from the spec: \<^verbatim>\<open>heap_::allocate(1, norefs_tag{})\<close>. The heap policy is a
  template parameter of the transience policy, and no heap policy is defined in the headers
  covered here.
  The spec asks of it raw storage for the requested objects and treats a failed allocation
  as fatal, so the model hands out cells one after the other: the heap is the number of
  cells handed out so far, a cell is never null and never one that was handed out before.
  Cells are not reclaimed (a tracing collector reclaims only what nothing refers to).
\<close>

type_synonym heap = nat

definition heap_init :: heap where
  "heap_init = 0"

definition allocate :: "heap \<Rightarrow> addr \<times> heap" where
  \<comment> \<open>Modelled from the spec: \<^verbatim>\<open>heap_::allocate\<close>, the next cell\<close>
  "allocate h = (Suc h, Suc h)"

definition allocated :: "heap \<Rightarrow> addr set" where
  "allocated h = {a. 0 < a \<and> a \<le> h}"

subsection \<open>edit, owner, ownee\<close>

text \<open>\<^verbatim>\<open>struct edit { void* v; ... }\<close> with its two comparison operators.\<close>

datatype edit = Edit (edit_v: addr)

definition edit_eq :: "edit \<Rightarrow> edit \<Rightarrow> bool" where
  "edit_eq a x = (edit_v a = edit_v x)"

definition edit_neq :: "edit \<Rightarrow> edit \<Rightarrow> bool" where
  "edit_neq a x = (edit_v a \<noteq> edit_v x)"

text \<open>
  \<^verbatim>\<open>struct owner { edit token_ {heap_::allocate(1, norefs_tag{})}; ... }\<close>.
  The default member initialiser runs in every constructor that does not initialise
  \<^verbatim>\<open>token_\<close> itself: in \<^verbatim>\<open>owner()\<close> and in \<^verbatim>\<open>owner(const owner&)\<close>, not in
  \<^verbatim>\<open>owner(owner&&)\<close>. A constructor or assignment that takes another owner returns the
  other owner next to its result where C++ could have changed it (the rvalue overloads).
\<close>

datatype owner = Owner (owner_token: edit)

definition owner_edit :: "owner \<Rightarrow> edit" where
  \<comment> \<open>\<^verbatim>\<open>operator edit () { return token_; }\<close>\<close>
  "owner_edit this = owner_token this"

definition owner_ctor :: "heap \<Rightarrow> owner \<times> heap" where
  \<comment> \<open>\<^verbatim>\<open>owner() {}\<close>\<close>
  "owner_ctor h = (case allocate h of (p, h') \<Rightarrow> (Owner (Edit p), h'))"

definition owner_copy_ctor :: "heap \<Rightarrow> owner \<Rightarrow> owner \<times> heap" where
  \<comment> \<open>\<^verbatim>\<open>owner(const owner&) {}\<close>\<close>
  "owner_copy_ctor h o' = (case allocate h of (p, h') \<Rightarrow> (Owner (Edit p), h'))"

definition owner_move_ctor :: "owner \<Rightarrow> owner \<times> owner" where
  \<comment> \<open>\<^verbatim>\<open>owner(owner&& o) : token_{o.token_} {}\<close>; the pair is (new owner, \<^verbatim>\<open>o\<close> afterwards)\<close>
  "owner_move_ctor o' = (Owner (owner_token o'), o')"

definition owner_copy_assign :: "owner \<Rightarrow> owner \<Rightarrow> owner" where
  \<comment> \<open>\<^verbatim>\<open>owner& operator=(const owner&) { return *this; }\<close>\<close>
  "owner_copy_assign this o' = this"

definition owner_move_assign :: "owner \<Rightarrow> owner \<Rightarrow> owner \<times> owner" where
  \<comment> \<open>\<^verbatim>\<open>owner& operator=(owner&& o) { token_ = o.token_; return *this; }\<close>;
      the pair is (\<^verbatim>\<open>*this\<close> afterwards, \<^verbatim>\<open>o\<close> afterwards)\<close>
  "owner_move_assign this o' = (Owner (owner_token o'), o')"

text \<open>
  \<^verbatim>\<open>struct ownee { edit token_ {nullptr}; ... }\<close>. A failed \<^verbatim>\<open>assert\<close> ends the program;
  it is the error value of the assignment. The static \<^verbatim>\<open>noone\<close> that the first assertion
  reads is an argument.
\<close>

datatype ownee = Ownee (ownee_token: edit)

datatype error = AssertionFailed | Undefined

definition ownee_ctor :: ownee where
  "ownee_ctor = Ownee (Edit nullptr)"

definition ownee_assign :: "owner \<Rightarrow> ownee \<Rightarrow> edit \<Rightarrow> error + ownee" where
  "ownee_assign noone this e =
     (if \<not> edit_neq e (owner_edit noone) then Inl AssertionFailed
      else if \<not> (edit_eq (ownee_token this) e \<or> edit_eq (ownee_token this) (Edit nullptr))
        then Inl AssertionFailed
      else Inr (Ownee e))"

definition can_mutate :: "ownee \<Rightarrow> edit \<Rightarrow> bool" where
  "can_mutate this t = edit_eq (ownee_token this) t"

definition owned :: "ownee \<Rightarrow> bool" where
  "owned this = edit_neq (ownee_token this) (Edit nullptr)"

text \<open>
  \<^verbatim>\<open>static owner noone\<close>, defined as \<^verbatim>\<open>noone = {}\<close>: a default-constructed owner, made
  when the program starts.
\<close>

definition static_init :: "owner \<times> heap" where
  "static_init = owner_ctor heap_init"

definition noone :: owner where
  "noone = fst static_init"


text \<open>
  A history of an ownee: it is constructed and then assigned the tokens of a list, one after
  the other; the first failed assertion ends the history.
\<close>

fun ownee_assigns :: "owner \<Rightarrow> ownee \<Rightarrow> edit list \<Rightarrow> error + ownee" where
  "ownee_assigns n this [] = Inr this"
| "ownee_assigns n this (e # es) =
     (case ownee_assign n this e of Inl err \<Rightarrow> Inl err | Inr this' \<Rightarrow> ownee_assigns n this' es)"

text \<open>
  A history of the heap: owners are default-constructed, and other objects are allocated in
  between. \<open>run_events\<close> returns the owners alive at the end, the latest first, with the heap.
\<close>

datatype event = NewOwner | OtherAllocation

fun run_events :: "event list \<Rightarrow> owner list \<Rightarrow> heap \<Rightarrow> owner list \<times> heap" where
  "run_events [] os h = (os, h)"
| "run_events (NewOwner # es) os h =
     (case owner_ctor h of (a, h') \<Rightarrow> run_events es (a # os) h')"
| "run_events (OtherAllocation # es) os h =
     (case allocate h of (p, h') \<Rightarrow> run_events es os h')"

section \<open>The mutable array (immer/array\_transient.hpp) over its backing store\<close>

subsection \<open>The backing store\<close>

text \<open>
  Modelled from the spec: the backing store \<^verbatim>\<open>detail::arrays::with_capacity\<close> behind
  \<^verbatim>\<open>impl_t\<close>, whose header is not among the headers covered here. The spec describes it as a
  handle on a shared node; each node carries an ownee, and the four mutators take the token
  of the calling transient and decide for the node they touch whether to mutate in place
  (\<^verbatim>\<open>ownee.can_mutate(token)\<close>) or to copy and relabel (\<^verbatim>\<open>ownee = token\<close> on the fresh
  copy). Nodes live in a memory indexed by address, so that two handles can share one node;
  a handle sees the first \<open>impl_size\<close> elements of its node. Fan-out and capacity are left
  open by the spec and are not modelled.
\<close>

record 'a node =
  node_ownee :: ownee
  node_data :: "'a list"

record impl_t =
  impl_d :: addr
  impl_size :: nat

record 'a memory =
  mem_heap :: heap
  mem_nodes :: "addr \<Rightarrow> 'a node option"

definition impl_data :: "'a memory \<Rightarrow> impl_t \<Rightarrow> error + 'a list" where
  \<comment> \<open>Modelled from the spec: \<^verbatim>\<open>impl_.data()\<close> up to \<^verbatim>\<open>impl_.size\<close>, the elements a handle
      sees; reading through a dangling handle is undefined\<close>
  "impl_data m i =
     (case mem_nodes m (impl_d i) of
        None \<Rightarrow> Inl Undefined
      | Some nd \<Rightarrow>
          if impl_size i \<le> length (node_data nd)
          then Inr (take (impl_size i) (node_data nd)) else Inl Undefined)"

definition impl_get :: "'a memory \<Rightarrow> impl_t \<Rightarrow> nat \<Rightarrow> error + 'a" where
  \<comment> \<open>Modelled from the spec: \<^verbatim>\<open>impl_.get(index)\<close>; indexing beyond the size is undefined\<close>
  "impl_get m i index =
     (case impl_data m i of
        Inl err \<Rightarrow> Inl err
      | Inr xs \<Rightarrow> if index < length xs then Inr (xs ! index) else Inl Undefined)"

definition claim :: "'a memory \<Rightarrow> edit \<Rightarrow> impl_t \<Rightarrow> error + (impl_t \<times> 'a memory)" where
  \<comment> \<open>Modelled from the spec: the decision of every mutator. The node to write to is the
      handle's own node when the token may mutate it, else a fresh copy of the elements the
      handle sees, relabelled with the token\<close>
  "claim m e i =
     (case mem_nodes m (impl_d i) of
        None \<Rightarrow> Inl Undefined
      | Some nd \<Rightarrow>
          if can_mutate (node_ownee nd) e then Inr (i, m)
          else (case allocate (mem_heap m) of (p, h') \<Rightarrow>
            (case ownee_assign noone ownee_ctor e of
               Inl err \<Rightarrow> Inl err
             | Inr oe \<Rightarrow>
                 Inr (i\<lparr>impl_d := p\<rparr>,
                      \<lparr>mem_heap = h',
                       mem_nodes = (mem_nodes m)(p \<mapsto>
                          \<lparr>node_ownee = oe,
                           node_data = take (impl_size i) (node_data nd)\<rparr>)\<rparr>))))"

definition write_node :: "'a memory \<Rightarrow> addr \<Rightarrow> 'a list \<Rightarrow> 'a memory" where
  \<comment> \<open>Modelled from the spec: mutation of a node in place\<close>
  "write_node m a xs =
     m\<lparr>mem_nodes := (mem_nodes m)(a := map_option (\<lambda>nd. nd\<lparr>node_data := xs\<rparr>) (mem_nodes m a))\<rparr>"

definition mutate ::
  "'a memory \<Rightarrow> edit \<Rightarrow> impl_t \<Rightarrow> ('a list \<Rightarrow> 'a list) \<Rightarrow> error + (impl_t \<times> 'a memory)" where
  \<comment> \<open>Modelled from the spec: the shape the four mutators share. Claim the node, then write
      the new elements into the claimed node in place\<close>
  "mutate m e i f =
     (case impl_data m i of
        Inl err \<Rightarrow> Inl err
      | Inr xs \<Rightarrow>
          (case claim m e i of
             Inl err \<Rightarrow> Inl err
           | Inr (i', m') \<Rightarrow>
               Inr (i'\<lparr>impl_size := length (f xs)\<rparr>, write_node m' (impl_d i') (f xs))))"

definition push_back_mut ::
  "'a memory \<Rightarrow> edit \<Rightarrow> impl_t \<Rightarrow> 'a \<Rightarrow> error + (impl_t \<times> 'a memory)" where
  \<comment> \<open>Modelled from the spec: append with claim\<close>
  "push_back_mut m e i value = mutate m e i (\<lambda>xs. xs @ [value])"

definition assoc_mut ::
  "'a memory \<Rightarrow> edit \<Rightarrow> impl_t \<Rightarrow> nat \<Rightarrow> 'a \<Rightarrow> error + (impl_t \<times> 'a memory)" where
  \<comment> \<open>Modelled from the spec: assign at index with claim; undefined unless \<open>index < size()\<close>\<close>
  "assoc_mut m e i index value =
     (if index < impl_size i then mutate m e i (\<lambda>xs. xs[index := value]) else Inl Undefined)"

definition update_mut ::
  "'a memory \<Rightarrow> edit \<Rightarrow> impl_t \<Rightarrow> nat \<Rightarrow> ('a \<Rightarrow> 'a) \<Rightarrow> error + (impl_t \<times> 'a memory)" where
  \<comment> \<open>Modelled from the spec: update at index with claim; undefined unless \<open>index < size()\<close>\<close>
  "update_mut m e i index fn =
     (if index < impl_size i then mutate m e i (\<lambda>xs. xs[index := fn (xs ! index)])
      else Inl Undefined)"

definition take_mut ::
  "'a memory \<Rightarrow> edit \<Rightarrow> impl_t \<Rightarrow> nat \<Rightarrow> error + (impl_t \<times> 'a memory)" where
  \<comment> \<open>Modelled from the spec: truncate with claim, to the first \<open>min(n, size())\<close> elements\<close>
  "take_mut m e i elems = mutate m e i (take (min elems (impl_size i)))"

subsection \<open>The immutable array\<close>

text \<open>
  Modelled from the spec: \<^verbatim>\<open>immer::array\<close>, the \<^verbatim>\<open>persistent_type\<close> of the transient; its
  header is not among the headers covered here. It wraps a handle of the backing store, offers
  reads only, and is turned into a transient by the private constructor
  \<^verbatim>\<open>array_transient(impl_t)\<close> below.
\<close>

datatype array = Array (array_impl: impl_t)

definition array_size :: "array \<Rightarrow> nat" where
  \<comment> \<open>Modelled from the spec: \<^verbatim>\<open>array::size()\<close>\<close>
  "array_size a = impl_size (array_impl a)"

definition array_at :: "'a memory \<Rightarrow> array \<Rightarrow> nat \<Rightarrow> error + 'a" where
  \<comment> \<open>Modelled from the spec: \<^verbatim>\<open>array::operator[]\<close>\<close>
  "array_at m a index = impl_get m (array_impl a) index"

definition array_elems :: "'a memory \<Rightarrow> array \<Rightarrow> error + 'a list" where
  \<comment> \<open>Modelled from the spec: the elements of the array, first to last\<close>
  "array_elems m a = impl_data m (array_impl a)"

subsection \<open>array\_transient\<close>

text \<open>
  \<^verbatim>\<open>class array_transient : MemoryPolicy::transience_t::owner { ... impl_t impl_; }\<close>, with the
  transience policy of the first section. The members are named after the source's, with
  the prefix \<open>tr\<close>.
\<close>

record array_transient =
  tr_owner :: owner
  tr_impl :: impl_t

definition tr_from_impl :: "'a memory \<Rightarrow> impl_t \<Rightarrow> array_transient \<times> 'a memory" where
  \<comment> \<open>\<^verbatim>\<open>array_transient(impl_t impl) : impl_(std::move(impl)) {}\<close>: the owner base is
      default-constructed\<close>
  "tr_from_impl m i =
     (case owner_ctor (mem_heap m) of (a, h') \<Rightarrow>
        (\<lparr>tr_owner = a, tr_impl = i\<rparr>, m\<lparr>mem_heap := h'\<rparr>))"

definition transient :: "'a memory \<Rightarrow> array \<Rightarrow> array_transient \<times> 'a memory" where
  \<comment> \<open>Modelled from the spec: \<^verbatim>\<open>array::transient()\<close>, which hands the array's handle to the
      private constructor\<close>
  "transient m a = tr_from_impl m (array_impl a)"

definition tr_size :: "array_transient \<Rightarrow> nat" where
  \<comment> \<open>\<^verbatim>\<open>size() const { return impl_.size; }\<close>\<close>
  "tr_size this = impl_size (tr_impl this)"

definition tr_at :: "'a memory \<Rightarrow> array_transient \<Rightarrow> nat \<Rightarrow> error + 'a" where
  \<comment> \<open>\<^verbatim>\<open>operator[] (size_type index) const { return impl_.get(index); }\<close>\<close>
  "tr_at m this index = impl_get m (tr_impl this) index"

definition tr_elems :: "'a memory \<Rightarrow> array_transient \<Rightarrow> error + 'a list" where
  \<comment> \<open>the range from \<^verbatim>\<open>begin()\<close> to \<^verbatim>\<open>end()\<close>, that is \<^verbatim>\<open>impl_.data()\<close> up to \<^verbatim>\<open>impl_.size\<close>\<close>
  "tr_elems m this = impl_data m (tr_impl this)"

definition with_impl ::
  "array_transient \<Rightarrow> error + (impl_t \<times> 'a memory) \<Rightarrow> error + (array_transient \<times> 'a memory)" where
  \<comment> \<open>the mutators of the store work on the member \<^verbatim>\<open>impl_\<close> in place\<close>
  "with_impl this r =
     (case r of Inl err \<Rightarrow> Inl err | Inr (i, m') \<Rightarrow> Inr (this\<lparr>tr_impl := i\<rparr>, m'))"

definition tr_push_back ::
  "'a memory \<Rightarrow> array_transient \<Rightarrow> 'a \<Rightarrow> error + (array_transient \<times> 'a memory)" where
  \<comment> \<open>\<^verbatim>\<open>push_back(value_type value) { impl_.push_back_mut(*this, std::move(value)); }\<close>\<close>
  "tr_push_back m this value =
     with_impl this (push_back_mut m (owner_edit (tr_owner this)) (tr_impl this) value)"

definition tr_set ::
  "'a memory \<Rightarrow> array_transient \<Rightarrow> nat \<Rightarrow> 'a \<Rightarrow> error + (array_transient \<times> 'a memory)" where
  \<comment> \<open>\<^verbatim>\<open>set(size_type index, value_type value) { impl_.assoc_mut(*this, index, std::move(value)); }\<close>\<close>
  "tr_set m this index value =
     with_impl this (assoc_mut m (owner_edit (tr_owner this)) (tr_impl this) index value)"

definition tr_update ::
  "'a memory \<Rightarrow> array_transient \<Rightarrow> nat \<Rightarrow> ('a \<Rightarrow> 'a) \<Rightarrow> error + (array_transient \<times> 'a memory)" where
  \<comment> \<open>\<^verbatim>\<open>update(size_type index, FnT&& fn) { impl_.update_mut(*this, index, std::forward<FnT>(fn)); }\<close>\<close>
  "tr_update m this index fn =
     with_impl this (update_mut m (owner_edit (tr_owner this)) (tr_impl this) index fn)"

definition tr_take ::
  "'a memory \<Rightarrow> array_transient \<Rightarrow> nat \<Rightarrow> error + (array_transient \<times> 'a memory)" where
  \<comment> \<open>\<^verbatim>\<open>take(size_type elems) { impl_.take_mut(*this, elems); }\<close>\<close>
  "tr_take m this elems =
     with_impl this (take_mut m (owner_edit (tr_owner this)) (tr_impl this) elems)"

definition tr_persistent :: "array_transient \<Rightarrow> array" where
  \<comment> \<open>\<^verbatim>\<open>persistent() const& { return persistent_type{ impl_ }; }\<close>: the transient stays as it is\<close>
  "tr_persistent this = Array (tr_impl this)"

definition tr_persistent_move :: "array_transient \<Rightarrow> array" where
  \<comment> \<open>\<^verbatim>\<open>persistent() && { return persistent_type{ std::move(impl_) }; }\<close>: the handle moves into
      the array and the transient is not used again\<close>
  "tr_persistent_move this = Array (tr_impl this)"

subsection \<open>Sequences of mutations\<close>

datatype 'a op = PushBack 'a | SetAt nat 'a | Update nat "'a \<Rightarrow> 'a" | Take nat

fun tr_apply ::
  "'a memory \<Rightarrow> array_transient \<Rightarrow> 'a op \<Rightarrow> error + (array_transient \<times> 'a memory)" where
  "tr_apply m this (PushBack x) = tr_push_back m this x"
| "tr_apply m this (SetAt index x) = tr_set m this index x"
| "tr_apply m this (Update index fn) = tr_update m this index fn"
| "tr_apply m this (Take elems) = tr_take m this elems"

fun tr_apply_all ::
  "'a memory \<Rightarrow> array_transient \<Rightarrow> 'a op list \<Rightarrow> error + (array_transient \<times> 'a memory)" where
  "tr_apply_all m this [] = Inr (this, m)"
| "tr_apply_all m this (x # xs) =
     (case tr_apply m this x of
        Inl err \<Rightarrow> Inl err
      | Inr (this', m') \<Rightarrow> tr_apply_all m' this' xs)"

text \<open>
  What the documentation of the four mutators says they do to the sequence of elements;
  \<open>None\<close> where it declares the call undefined.
\<close>

fun op_elems :: "'a op \<Rightarrow> 'a list \<Rightarrow> 'a list option" where
  "op_elems (PushBack x) xs = Some (xs @ [x])"
| "op_elems (SetAt index x) xs = (if index < length xs then Some (xs[index := x]) else None)"
| "op_elems (Update index fn) xs =
     (if index < length xs then Some (xs[index := fn (xs ! index)]) else None)"
| "op_elems (Take elems) xs = Some (take (min elems (length xs)) xs)"

fun ops_elems :: "'a op list \<Rightarrow> 'a list \<Rightarrow> 'a list option" where
  "ops_elems [] xs = Some xs"
| "ops_elems (x # ops) xs = (case op_elems x xs of None \<Rightarrow> None | Some ys \<Rightarrow> ops_elems ops ys)"

subsection \<open>Well-formed handles\<close>

text \<open>
  A handle is valid in a memory when its node was allocated and exists, holds at least the
  elements the handle sees, and carries an ownee that is unowned or labelled with a token
  that was allocated. A transient is valid when its handle is, and its token was allocated
  and is not null (every owner's token comes from \<open>allocate\<close>) nor the token of \<open>noone\<close>.
\<close>

definition valid_impl :: "'a memory \<Rightarrow> impl_t \<Rightarrow> bool" where
  "valid_impl m i =
     (case mem_nodes m (impl_d i) of
        None \<Rightarrow> False
      | Some nd \<Rightarrow>
          impl_d i \<in> allocated (mem_heap m)
          \<and> impl_size i \<le> length (node_data nd)
          \<and> (ownee_token (node_ownee nd) = Edit nullptr
              \<or> edit_v (ownee_token (node_ownee nd)) \<in> allocated (mem_heap m)))"

definition valid_transient :: "'a memory \<Rightarrow> array_transient \<Rightarrow> bool" where
  "valid_transient m this =
     (valid_impl m (tr_impl this)
      \<and> edit_v (owner_edit (tr_owner this)) \<in> allocated (mem_heap m)
      \<and> owner_edit (tr_owner this) \<noteq> owner_edit noone)"

definition initialised :: "'a memory \<Rightarrow> bool" where
  \<comment> \<open>the static \<open>noone\<close> has been constructed\<close>
  "initialised m = (edit_v (owner_edit noone) \<in> allocated (mem_heap m))"

subsection \<open>Example states\<close>

text \<open>
  A memory in which \<open>noone\<close> holds cell 1 and an unowned node at cell 2 holds \<open>[1, 2, 3]\<close>,
  with the array on that node; and a memory in which a transient with the token at cell 2
  owns the node at cell 3, which holds \<open>[1, 2, 3, 4]\<close>.
\<close>

definition example_memory :: "int memory" where
  "example_memory =
     \<lparr>mem_heap = 2,
      mem_nodes = Map.empty(2 \<mapsto> \<lparr>node_ownee = ownee_ctor, node_data = [1, 2, 3]\<rparr>)\<rparr>"

definition example_array :: array where
  "example_array = Array \<lparr>impl_d = 2, impl_size = 3\<rparr>"

definition example_memory_tr :: "int memory" where
  "example_memory_tr =
     \<lparr>mem_heap = 3,
      mem_nodes = Map.empty(3 \<mapsto> \<lparr>node_ownee = Ownee (Edit 2), node_data = [1, 2, 3, 4]\<rparr>)\<rparr>"

definition example_transient :: array_transient where
  "example_transient = \<lparr>tr_owner = Owner (Edit 2), tr_impl = \<lparr>impl_d = 3, impl_size = 4\<rparr>\<rparr>"

section \<open>Facts about the policy\<close>

lemma edit_eq_iff [simp]: "edit_eq a x \<longleftrightarrow> a = x"
  by (cases a; cases x) (simp add: edit_eq_def)

lemma edit_neq_iff [simp]: "edit_neq a x \<longleftrightarrow> a \<noteq> x"
  by (cases a; cases x) (simp add: edit_neq_def)

lemma noone_token: "owner_edit noone = Edit 1"
  by (simp add: noone_def static_init_def owner_ctor_def allocate_def heap_init_def owner_edit_def)

lemma allocate_fresh:
  "allocate h = (p, h') \<Longrightarrow>
     p \<notin> allocated h \<and> p \<noteq> nullptr \<and> allocated h' = insert p (allocated h)"
  by (auto simp: allocate_def allocated_def nullptr_def)

lemma allocated_mono: "h \<le> h' \<Longrightarrow> a \<in> allocated h \<Longrightarrow> a \<in> allocated h'"
  by (simp add: allocated_def)

subsection \<open>Moving and copying an owner\<close>

text \<open>
  C2, as the code has it. Move construction and move assignment give the target the token
  of the source and leave the source as it was: the source keeps its token, so whatever
  ownee the source could mutate before the move, both owners can mutate after it.
\<close>

theorem owner_move_transfers:
  "owner_token (fst (owner_move_ctor A)) = owner_token A
   \<and> snd (owner_move_ctor A) = A
   \<and> owner_token (fst (owner_move_assign B A)) = owner_token A
   \<and> snd (owner_move_assign B A) = A
   \<and> (can_mutate this (owner_edit A) \<longrightarrow>
        can_mutate this (owner_edit (fst (owner_move_ctor A)))
        \<and> can_mutate this (owner_edit (snd (owner_move_ctor A)))
        \<and> can_mutate this (owner_edit (fst (owner_move_assign B A)))
        \<and> can_mutate this (owner_edit (snd (owner_move_assign B A))))"
  by (simp add: owner_move_ctor_def owner_move_assign_def owner_edit_def)

theorem owner_move_transfers_witness:
  "can_mutate (Ownee (Edit 2)) (owner_edit (Owner (Edit 2)))
   \<and> owner_token (fst (owner_move_ctor (Owner (Edit 2)))) = Edit 2
   \<and> snd (owner_move_ctor (Owner (Edit 2))) = Owner (Edit 2)
   \<and> owner_token (fst (owner_move_assign (Owner (Edit 3)) (Owner (Edit 2)))) = Edit 2
   \<and> can_mutate (Ownee (Edit 2)) (owner_edit (fst (owner_move_ctor (Owner (Edit 2)))))"
proof -
  have c: "can_mutate (Ownee (Edit 2)) (owner_edit (Owner (Edit 2)))"
    by (simp add: can_mutate_def owner_edit_def)
  show ?thesis
    using c owner_move_transfers [of "Owner (Edit 2)" "Owner (Edit 3)" "Ownee (Edit 2)"]
    by simp
qed

text \<open>
  The spec's wording, that the moved-from owner holds no claim any more, fails: owner \<open>A\<close>
  holds the token at cell 2, an ownee is labelled with it, and after \<open>A\<close> was moved from
  (by construction or by assignment) its token still passes \<open>can_mutate\<close> on that ownee.
\<close>

theorem owner_move_source_counterexample:
  "owner_token (fst (owner_move_ctor (Owner (Edit 2)))) = Edit 2
   \<and> ownee_assign noone ownee_ctor (Edit 2) = Inr (Ownee (Edit 2))
   \<and> can_mutate (Ownee (Edit 2)) (owner_edit (snd (owner_move_ctor (Owner (Edit 2)))))
   \<and> can_mutate (Ownee (Edit 2))
        (owner_edit (snd (owner_move_assign (Owner (Edit 3)) (Owner (Edit 2)))))"
  by (simp add: owner_move_ctor_def owner_move_assign_def can_mutate_def owner_edit_def
      ownee_assign_def ownee_ctor_def noone_token [unfolded owner_edit_def])

text \<open>
  C3, as the code has it. The copy constructor leaves its member to the default
  initialiser, so the copy holds a freshly allocated token: it differs from every token
  allocated before (the source's and the one of \<open>noone\<close> among them) and from null. Copy
  assignment leaves the target as it was.
\<close>

theorem owner_copy_mints_fresh:
  "(\<forall>X. edit_v (owner_token X) \<in> allocated h \<or> edit_v (owner_token X) = nullptr
        \<longrightarrow> owner_token (fst (owner_copy_ctor h A)) \<noteq> owner_token X)
   \<and> allocated (snd (owner_copy_ctor h A))
       = insert (edit_v (owner_token (fst (owner_copy_ctor h A)))) (allocated h)
   \<and> owner_copy_assign B A = B"
  by (auto simp: owner_copy_ctor_def allocate_def allocated_def nullptr_def owner_copy_assign_def
      dest: arg_cong [where f = edit_v])

theorem owner_copy_mints_fresh_witness:
  "owner_token (fst (owner_copy_ctor 2 (Owner (Edit 2)))) \<noteq> Edit 2
   \<and> owner_token (fst (owner_copy_ctor 2 (Owner (Edit 2)))) \<noteq> owner_token noone
   \<and> owner_copy_assign (Owner (Edit 3)) (Owner (Edit 2)) = Owner (Edit 3)"
proof -
  have "edit_v (owner_token (Owner (Edit 2))) \<in> allocated 2"
    and "edit_v (owner_token noone) \<in> allocated 2"
    using noone_token by (simp_all add: allocated_def owner_edit_def)
  then show ?thesis
    using owner_copy_mints_fresh [of 2 "Owner (Edit 2)" "Owner (Edit 3)"]
    by (metis owner.sel)
qed

text \<open>
  The spec's wording, that a copy holds the token of \<open>noone\<close>, fails: after the program
  start the next owner holds cell 2; its copy holds cell 3, and an owner with cell 3 that is
  copy-assigned from it keeps cell 3, while \<open>noone\<close> holds cell 1.
\<close>

theorem owner_copy_counterexample:
  "owner_ctor (snd static_init) = (Owner (Edit 2), 2)
   \<and> owner_edit (fst (owner_copy_ctor 2 (Owner (Edit 2)))) \<noteq> owner_edit noone
   \<and> owner_edit (owner_copy_assign (Owner (Edit 3)) (Owner (Edit 2))) \<noteq> owner_edit noone"
  by (simp add: static_init_def heap_init_def owner_ctor_def owner_copy_ctor_def allocate_def
      owner_copy_assign_def noone_token) (simp add: owner_edit_def)

subsection \<open>The ownee\<close>

lemma ownee_assigns_not_noone:
  "ownee_assigns n this es = Inr r \<Longrightarrow> ownee_token this \<noteq> owner_edit n
   \<Longrightarrow> ownee_token r \<noteq> owner_edit n"
proof (induction es arbitrary: this)
  case Nil
  then show ?case by simp
next
  case (Cons e es)
  from Cons.prems(1) obtain this' where a: "ownee_assign n this e = Inr this'"
    and r: "ownee_assigns n this' es = Inr r"
    by (auto split: sum.splits)
  from a have "ownee_token this' \<noteq> owner_edit n"
    by (auto simp: ownee_assign_def split: if_splits)
  with Cons.IH [OF r] show ?case .
qed

text \<open>
  C4. For an ownee that was constructed and then assigned to (every assignment passing its
  assertions), with a \<open>noone\<close> whose token is not null: \<open>can_mutate t\<close> holds exactly when
  the stored token is \<open>t\<close> and \<open>t\<close> is not the token of \<open>noone\<close>. And after an assignment
  of \<open>t\<close> that went through, \<open>can_mutate t\<close> holds and \<open>can_mutate t'\<close> fails for every
  other token \<open>t'\<close>.
\<close>

theorem can_mutate_exclusive:
  "(owner_edit n \<noteq> Edit nullptr \<and> ownee_assigns n ownee_ctor es = Inr this
      \<longrightarrow> (can_mutate this t \<longleftrightarrow> ownee_token this = t \<and> t \<noteq> owner_edit n))
   \<and> (ownee_assign n this0 t = Inr this1
      \<longrightarrow> can_mutate this1 t \<and> (\<forall>t'. t' \<noteq> t \<longrightarrow> \<not> can_mutate this1 t'))"
proof (intro conjI impI)
  assume h: "owner_edit n \<noteq> Edit nullptr \<and> ownee_assigns n ownee_ctor es = Inr this"
  then have "ownee_token this \<noteq> owner_edit n"
    using ownee_assigns_not_noone [of n ownee_ctor es this] by (auto simp: ownee_ctor_def)
  then show "can_mutate this t \<longleftrightarrow> ownee_token this = t \<and> t \<noteq> owner_edit n"
    by (auto simp: can_mutate_def)
next
  assume "ownee_assign n this0 t = Inr this1"
  then have "ownee_token this1 = t"
    by (auto simp: ownee_assign_def split: if_splits)
  then show "can_mutate this1 t" by (simp add: can_mutate_def)
next
  assume "ownee_assign n this0 t = Inr this1"
  then have "ownee_token this1 = t"
    by (auto simp: ownee_assign_def split: if_splits)
  then show "\<forall>t'. t' \<noteq> t \<longrightarrow> \<not> can_mutate this1 t'"
    by (auto simp: can_mutate_def)
qed

theorem can_mutate_exclusive_witness:
  "ownee_assigns noone ownee_ctor [Edit 2, Edit 2] = Inr (Ownee (Edit 2))
   \<and> can_mutate (Ownee (Edit 2)) (Edit 2)
   \<and> \<not> can_mutate (Ownee (Edit 2)) (owner_edit noone)
   \<and> \<not> can_mutate (Ownee (Edit 2)) (Edit 3)
   \<and> \<not> can_mutate ownee_ctor (owner_edit noone)"
proof -
  have n: "owner_edit noone \<noteq> Edit nullptr"
    by (simp add: noone_token nullptr_def)
  have a: "ownee_assigns noone ownee_ctor [Edit 2, Edit 2] = Inr (Ownee (Edit 2))"
    by (simp add: ownee_assign_def noone_token ownee_ctor_def)
  have b: "ownee_assign noone ownee_ctor (Edit 2) = Inr (Ownee (Edit 2))"
    by (simp add: ownee_assign_def noone_token ownee_ctor_def)
  have c: "ownee_assigns noone ownee_ctor [] = Inr ownee_ctor" by simp
  show ?thesis
    using a n b c
      can_mutate_exclusive [of noone "[Edit 2, Edit 2]" "Ownee (Edit 2)" "Edit 2"
        ownee_ctor "Ownee (Edit 2)"]
      can_mutate_exclusive [of noone "[Edit 2, Edit 2]" "Ownee (Edit 2)" "Edit 3"
        ownee_ctor "Ownee (Edit 3)"]
      can_mutate_exclusive [of noone "[Edit 2, Edit 2]" "Ownee (Edit 2)" "owner_edit noone"
        ownee_ctor "Ownee (Edit 3)"]
      can_mutate_exclusive [of noone "[]" "ownee_ctor" "owner_edit noone"
        ownee_ctor "Ownee (Edit 2)"]
    by (simp add: noone_token ownee_ctor_def)
qed

text \<open>
  C5. Assigning a token \<open>e\<close> to an ownee goes through only when \<open>e\<close> is not the token of
  \<open>noone\<close> and the ownee is unowned or already holds \<open>e\<close>; then the ownee holds \<open>e\<close>.
  Assigning another token to an owned ownee, or assigning the token of \<open>noone\<close>, fails the
  assertion and stores nothing.
\<close>

theorem ownee_assign_guarded:
  "(e \<noteq> owner_edit n \<and> (\<not> owned this \<or> ownee_token this = e)
      \<longrightarrow> ownee_assign n this e = Inr (Ownee e))
   \<and> (owned this \<and> ownee_token this \<noteq> e \<longrightarrow> ownee_assign n this e = Inl AssertionFailed)
   \<and> (e = owner_edit n \<longrightarrow> ownee_assign n this e = Inl AssertionFailed)
   \<and> (\<forall>r. ownee_assign n this e = Inr r
        \<longrightarrow> (\<not> owned this \<or> ownee_token this = e) \<and> e \<noteq> owner_edit n \<and> ownee_token r = e)"
  by (auto simp: ownee_assign_def owned_def)

theorem ownee_assign_guarded_witness:
  "ownee_assign noone ownee_ctor (Edit 2) = Inr (Ownee (Edit 2))
   \<and> ownee_assign noone (Ownee (Edit 2)) (Edit 2) = Inr (Ownee (Edit 2))
   \<and> ownee_assign noone (Ownee (Edit 2)) (Edit 3) = Inl AssertionFailed
   \<and> ownee_assign noone ownee_ctor (owner_edit noone) = Inl AssertionFailed"
  using ownee_assign_guarded [of "Edit 2" noone ownee_ctor]
    ownee_assign_guarded [of "Edit 2" noone "Ownee (Edit 2)"]
    ownee_assign_guarded [of "Edit 3" noone "Ownee (Edit 2)"]
    ownee_assign_guarded [of "owner_edit noone" noone ownee_ctor]
  by (simp add: noone_token owned_def ownee_ctor_def nullptr_def)

subsection \<open>Tokens of default-constructed owners\<close>

lemma run_events_distinct:
  "run_events es os h = (os', h') \<Longrightarrow> distinct (map owner_token os)
   \<Longrightarrow> \<forall>a\<in>set os. edit_v (owner_token a) \<in> allocated h
   \<Longrightarrow> distinct (map owner_token os') \<and> set os \<subseteq> set os'
       \<and> (\<forall>a\<in>set os'. edit_v (owner_token a) \<in> allocated h')"
proof (induction es os h rule: run_events.induct)
  case (1 os h)
  then show ?case by simp
next
  case (2 es os h)
  obtain p h1 where al: "allocate h = (p, h1)" by (cases "allocate h")
  from allocate_fresh [OF al] have fresh: "p \<notin> allocated h"
    and h1: "allocated h1 = insert p (allocated h)"
    by simp_all
  have oc: "owner_ctor h = (Owner (Edit p), h1)" by (simp add: owner_ctor_def al)
  from "2.prems"(1) have run: "run_events es (Owner (Edit p) # os) h1 = (os', h')"
    by (simp add: oc)
  have d: "distinct (map owner_token (Owner (Edit p) # os))"
    using "2.prems"(2,3) fresh by (auto dest: arg_cong [where f = edit_v])
  have a: "\<forall>a\<in>set (Owner (Edit p) # os). edit_v (owner_token a) \<in> allocated h1"
    using "2.prems"(3) h1 by simp
  from "2.IH" [OF oc [symmetric] run d a] show ?case by simp
next
  case (3 es os h)
  obtain p h1 where al: "allocate h = (p, h1)" by (cases "allocate h")
  from allocate_fresh [OF al] have h1: "allocated h1 = insert p (allocated h)" by simp
  from "3.prems"(1) have run: "run_events es os h1 = (os', h')" by (simp add: al)
  have a: "\<forall>a\<in>set os. edit_v (owner_token a) \<in> allocated h1"
    using "3.prems"(3) h1 by simp
  from "3.IH" [OF al [symmetric] run "3.prems"(2) a] show ?case by simp
qed

text \<open>
  C6. Whatever owners are default-constructed after the program start, with whatever other
  allocations in between, the tokens of all of them and of \<open>noone\<close> are pairwise different:
  each newly made owner differs from every owner alive, \<open>noone\<close> included.
\<close>

theorem token_uniqueness:
  "distinct (map owner_token (fst (run_events es [noone] (snd static_init))))
   \<and> noone \<in> set (fst (run_events es [noone] (snd static_init)))"
proof -
  obtain os' h' where r: "run_events es [noone] (snd static_init) = (os', h')"
    by (cases "run_events es [noone] (snd static_init)")
  have "\<forall>a\<in>set [noone]. edit_v (owner_token a) \<in> allocated (snd static_init)"
    by (simp add: noone_def static_init_def owner_ctor_def allocate_def allocated_def heap_init_def)
  with run_events_distinct [OF r] show ?thesis by (auto simp: r)
qed

theorem token_uniqueness_witness:
  "fst (run_events [NewOwner, OtherAllocation, NewOwner] [noone] (snd static_init))
     = [Owner (Edit 4), Owner (Edit 2), noone]
   \<and> distinct [Edit 4, Edit 2, owner_token noone]"
proof -
  have e: "fst (run_events [NewOwner, OtherAllocation, NewOwner] [noone] (snd static_init))
     = [Owner (Edit 4), Owner (Edit 2), noone]"
    by (simp add: static_init_def owner_ctor_def allocate_def heap_init_def)
  show ?thesis
    using token_uniqueness [of "[NewOwner, OtherAllocation, NewOwner]"] unfolding e by simp
qed

section \<open>Facts about the mutable array\<close>

subsection \<open>The mutators of the store\<close>

lemma impl_data_valid:
  "valid_impl m i \<Longrightarrow> \<exists>nd. mem_nodes m (impl_d i) = Some nd
     \<and> impl_data m i = Inr (take (impl_size i) (node_data nd))
     \<and> impl_size i \<le> length (node_data nd)"
  by (auto simp: valid_impl_def impl_data_def split: option.splits)

lemma impl_data_length:
  "impl_data m i = Inr xs \<Longrightarrow> length xs = impl_size i"
  by (auto simp: impl_data_def split: option.splits if_splits)

lemma claim_ok:
  assumes v: "valid_impl m i" and ea: "edit_v e \<in> allocated (mem_heap m)"
    and en: "e \<noteq> owner_edit noone" and xs: "impl_data m i = Inr xs"
  shows "\<exists>i' m' nd'. claim m e i = Inr (i', m') \<and> mem_nodes m' (impl_d i') = Some nd'
      \<and> can_mutate (node_ownee nd') e \<and> impl_d i' \<in> allocated (mem_heap m')
      \<and> impl_size i' = impl_size i \<and> mem_heap m \<le> mem_heap m'
      \<and> edit_v e \<in> allocated (mem_heap m')"
proof -
  from impl_data_valid [OF v] obtain nd where nd: "mem_nodes m (impl_d i) = Some nd" by blast
  show ?thesis
  proof (cases "can_mutate (node_ownee nd) e")
    case True
    with nd v ea show ?thesis
      by (simp add: claim_def valid_impl_def)
  next
    case False
    have a: "ownee_assign noone ownee_ctor e = Inr (Ownee e)"
      using en by (simp add: ownee_assign_def ownee_ctor_def)
    from False nd ea show ?thesis
      by (simp add: claim_def a allocate_def can_mutate_def allocated_def)
  qed
qed

lemma mutate_ok:
  assumes v: "valid_impl m i" and ea: "edit_v e \<in> allocated (mem_heap m)"
    and en: "e \<noteq> owner_edit noone"
  shows "\<exists>xs i' m'. impl_data m i = Inr xs \<and> mutate m e i f = Inr (i', m')
      \<and> valid_impl m' i' \<and> impl_data m' i' = Inr (f xs) \<and> impl_size i' = length (f xs)
      \<and> mem_heap m \<le> mem_heap m'"
proof -
  from impl_data_valid [OF v] obtain xs where xs: "impl_data m i = Inr xs" by blast
  from claim_ok [OF v ea en xs] obtain i' m' nd' where
    c: "claim m e i = Inr (i', m')" and nd': "mem_nodes m' (impl_d i') = Some nd'"
    and cm: "can_mutate (node_ownee nd') e" and al: "impl_d i' \<in> allocated (mem_heap m')"
    and le: "mem_heap m \<le> mem_heap m'" and ea': "edit_v e \<in> allocated (mem_heap m')"
    by blast
  let ?i = "i'\<lparr>impl_size := length (f xs)\<rparr>"
  let ?m = "write_node m' (impl_d i') (f xs)"
  have "mutate m e i f = Inr (?i, ?m)" by (simp add: mutate_def xs c)
  moreover have "valid_impl ?m ?i"
    using nd' cm al ea' by (simp add: valid_impl_def write_node_def can_mutate_def)
  moreover have "impl_data ?m ?i = Inr (f xs)"
    using nd' by (simp add: impl_data_def write_node_def)
  moreover have "mem_heap m \<le> mem_heap ?m" using le by (simp add: write_node_def)
  ultimately show ?thesis using xs by simp
qed

lemma mutate_frame:
  assumes mu: "mutate m e i f = Inr (i', m')"
    and a: "a \<in> allocated (mem_heap m)" and nd: "mem_nodes m a = Some nd"
    and ne: "ownee_token (node_ownee nd) \<noteq> e"
  shows "mem_nodes m' a = Some nd"
proof -
  from mu obtain xs j mj where xs: "impl_data m i = Inr xs" and c: "claim m e i = Inr (j, mj)"
    and i': "i' = j\<lparr>impl_size := length (f xs)\<rparr>" and m': "m' = write_node mj (impl_d j) (f xs)"
    by (auto simp: mutate_def split: sum.splits)
  from c obtain ndi where ndi: "mem_nodes m (impl_d i) = Some ndi"
    by (auto simp: claim_def split: option.splits)
  show ?thesis
  proof (cases "can_mutate (node_ownee ndi) e")
    case True
    with c ndi have "j = i" "mj = m" by (simp_all add: claim_def)
    moreover from True ndi nd ne have "impl_d i \<noteq> a" by (auto simp: can_mutate_def)
    ultimately show ?thesis using nd by (simp add: m' write_node_def)
  next
    case False
    with c ndi have "impl_d j = Suc (mem_heap m)" and "mem_nodes mj a = (if a = Suc (mem_heap m) then mem_nodes mj a else mem_nodes m a)"
      by (auto simp: claim_def allocate_def split: sum.splits)
    moreover from a have "a \<noteq> Suc (mem_heap m)" by (simp add: allocated_def)
    ultimately show ?thesis using nd by (simp add: m' write_node_def)
  qed
qed


lemma with_impl_Inr:
  "with_impl this r = Inr (this', m') \<longleftrightarrow> (\<exists>i. r = Inr (i, m') \<and> this' = this\<lparr>tr_impl := i\<rparr>)"
  by (auto simp: with_impl_def split: sum.splits)

lemma tr_mutate_ok:
  assumes vt: "valid_transient m this"
  shows "\<exists>xs this' m'. tr_elems m this = Inr xs
      \<and> with_impl this (mutate m (owner_edit (tr_owner this)) (tr_impl this) f) = Inr (this', m')
      \<and> valid_transient m' this' \<and> tr_elems m' this' = Inr (f xs)
      \<and> tr_size this' = length (f xs) \<and> tr_owner this' = tr_owner this
      \<and> mem_heap m \<le> mem_heap m'"
proof -
  from vt have v: "valid_impl m (tr_impl this)"
    and ea: "edit_v (owner_edit (tr_owner this)) \<in> allocated (mem_heap m)"
    and en: "owner_edit (tr_owner this) \<noteq> owner_edit noone"
    by (simp_all add: valid_transient_def)
  from mutate_ok [OF v ea en, of f] obtain xs i' m' where
    "impl_data m (tr_impl this) = Inr xs"
    "mutate m (owner_edit (tr_owner this)) (tr_impl this) f = Inr (i', m')"
    "valid_impl m' i'" "impl_data m' i' = Inr (f xs)" "impl_size i' = length (f xs)"
    "mem_heap m \<le> mem_heap m'"
    by blast
  then show ?thesis
    using ea en
    by (auto simp: with_impl_def tr_elems_def valid_transient_def tr_size_def
        intro: allocated_mono)
qed

lemma tr_apply_ok:
  assumes vt: "valid_transient m this" and xs: "tr_elems m this = Inr xs"
    and ys: "op_elems x xs = Some ys"
  shows "\<exists>this' m'. tr_apply m this x = Inr (this', m')
      \<and> valid_transient m' this' \<and> tr_elems m' this' = Inr ys
      \<and> tr_size this' = length ys \<and> tr_owner this' = tr_owner this
      \<and> mem_heap m \<le> mem_heap m'"
proof -
  from xs have len: "length xs = impl_size (tr_impl this)"
    by (simp add: tr_elems_def impl_data_length)
  show ?thesis
  proof (cases x)
    case (PushBack v)
    with tr_mutate_ok [OF vt, of "\<lambda>xs. xs @ [v]"] xs ys show ?thesis
      by (auto simp: tr_push_back_def push_back_mut_def)
  next
    case (SetAt index v)
    with ys have "index < length xs" by (simp split: if_splits)
    with SetAt tr_mutate_ok [OF vt, of "\<lambda>xs. xs[index := v]"] xs ys len show ?thesis
      by (auto simp: tr_set_def assoc_mut_def)
  next
    case (Update index fn)
    with ys have "index < length xs" by (simp split: if_splits)
    with Update tr_mutate_ok [OF vt, of "\<lambda>xs. xs[index := fn (xs ! index)]"] xs ys len
    show ?thesis
      by (auto simp: tr_update_def update_mut_def)
  next
    case (Take elems)
    with tr_mutate_ok [OF vt, of "take (min elems (impl_size (tr_impl this)))"] xs ys len
    show ?thesis
      by (auto simp: tr_take_def take_mut_def)
  qed
qed

lemma tr_apply_frame:
  assumes ap: "tr_apply m this x = Inr (this', m')"
    and a: "a \<in> allocated (mem_heap m)" and nd: "mem_nodes m a = Some nd"
    and ne: "ownee_token (node_ownee nd) \<noteq> owner_edit (tr_owner this)"
  shows "mem_nodes m' a = Some nd"
proof -
  from ap obtain f i' where "mutate m (owner_edit (tr_owner this)) (tr_impl this) f = Inr (i', m')"
    by (cases x)
      (auto simp: tr_push_back_def push_back_mut_def tr_set_def assoc_mut_def tr_update_def
        update_mut_def tr_take_def take_mut_def with_impl_Inr split: if_splits)
  from mutate_frame [OF this a nd ne] show ?thesis .
qed

lemma tr_apply_all_frame:
  assumes "valid_transient m this" and "tr_elems m this = Inr xs"
    and "ops_elems ops xs = Some ys"
    and "a \<in> allocated (mem_heap m)" and "mem_nodes m a = Some nd"
    and "ownee_token (node_ownee nd) \<noteq> owner_edit (tr_owner this)"
  shows "\<exists>this' m'. tr_apply_all m this ops = Inr (this', m')
      \<and> valid_transient m' this' \<and> tr_elems m' this' = Inr ys \<and> mem_nodes m' a = Some nd"
  using assms
proof (induction ops arbitrary: m this xs)
  case Nil
  then show ?case by simp
next
  case (Cons x ops)
  from Cons.prems(3) obtain zs where zs: "op_elems x xs = Some zs"
    and ys: "ops_elems ops zs = Some ys"
    by (auto split: option.splits)
  from tr_apply_ok [OF Cons.prems(1,2) zs] obtain this1 m1 where
    ap: "tr_apply m this x = Inr (this1, m1)" and v1: "valid_transient m1 this1"
    and e1: "tr_elems m1 this1 = Inr zs" and o1: "tr_owner this1 = tr_owner this"
    and h1: "mem_heap m \<le> mem_heap m1"
    by blast
  from tr_apply_frame [OF ap Cons.prems(4,5,6)] have nd1: "mem_nodes m1 a = Some nd" .
  from Cons.prems(4) h1 have a1: "a \<in> allocated (mem_heap m1)" by (rule allocated_mono [rotated])
  from Cons.prems(6) o1 have ne1: "ownee_token (node_ownee nd) \<noteq> owner_edit (tr_owner this1)"
    by simp
  from Cons.IH [OF v1 e1 ys a1 nd1 ne1] show ?case by (simp add: ap)
qed

lemma transient_valid:
  assumes init: "initialised m" and v: "valid_impl m (array_impl P)"
    and tr: "transient m P = (T, m1)"
  shows "valid_transient m1 T \<and> tr_impl T = array_impl P \<and> mem_nodes m1 = mem_nodes m
      \<and> impl_d (array_impl P) \<in> allocated (mem_heap m1)
      \<and> (\<forall>nd. mem_nodes m (impl_d (array_impl P)) = Some nd
            \<longrightarrow> ownee_token (node_ownee nd) \<noteq> owner_edit (tr_owner T))"
  using assms
  by (auto simp: transient_def tr_from_impl_def owner_ctor_def allocate_def valid_transient_def
      valid_impl_def initialised_def owner_edit_def allocated_def nullptr_def
      split: option.splits dest: arg_cong [where f = edit_v])

subsection \<open>Persistent values and their transients\<close>

text \<open>
  C1. Let \<open>P\<close> be an array on a valid handle, with elements \<open>xs\<close>, and \<open>T\<close> the transient
  derived from it. Every sequence of \<open>push_back\<close>, \<open>set\<close>, \<open>update\<close> and \<open>take\<close> on \<open>T\<close> whose
  calls are defined goes through, and afterwards \<open>P\<close> has the size and the elements it had,
  at every index, while \<open>T.persistent()\<close> has the elements that the mutations make of \<open>xs\<close>.
  For \<open>P = [1, 2, 3]\<close> and \<open>push_back(4)\<close>: \<open>P\<close> is still \<open>[1, 2, 3]\<close> and the new array is
  \<open>[1, 2, 3, 4]\<close>.
\<close>

theorem structural_independence:
  assumes init: "initialised m" and v: "valid_impl m (array_impl P)"
    and xs: "array_elems m P = Inr xs"
    and tr: "transient m P = (T, m1)"
    and ys: "ops_elems ops xs = Some ys"
  shows "\<exists>T' m2. tr_apply_all m1 T ops = Inr (T', m2)
      \<and> array_size P = length xs \<and> array_elems m2 P = Inr xs
      \<and> (\<forall>index. array_at m2 P index = array_at m P index)
      \<and> array_size (tr_persistent T') = length ys
      \<and> array_elems m2 (tr_persistent T') = Inr ys"
proof -
  from impl_data_valid [OF v] obtain nd where nd: "mem_nodes m (impl_d (array_impl P)) = Some nd"
    by blast
  from transient_valid [OF init v tr] nd have vt: "valid_transient m1 T"
    and ti: "tr_impl T = array_impl P" and nodes: "mem_nodes m1 = mem_nodes m"
    and a: "impl_d (array_impl P) \<in> allocated (mem_heap m1)"
    and ne: "ownee_token (node_ownee nd) \<noteq> owner_edit (tr_owner T)"
    by simp_all
  from xs ti nodes have e1: "tr_elems m1 T = Inr xs"
    by (simp add: tr_elems_def array_elems_def impl_data_def)
  from nd nodes have nd1: "mem_nodes m1 (impl_d (array_impl P)) = Some nd" by simp
  from tr_apply_all_frame [OF vt e1 ys a nd1 ne] obtain T' m2 where
    r: "tr_apply_all m1 T ops = Inr (T', m2)" and e2: "tr_elems m2 T' = Inr ys"
    and nd2: "mem_nodes m2 (impl_d (array_impl P)) = Some nd"
    by blast
  from nd nd2 have same: "impl_data m2 (array_impl P) = impl_data m (array_impl P)"
    by (simp add: impl_data_def)
  from e2 have "array_elems m2 (tr_persistent T') = Inr ys"
    by (simp add: array_elems_def tr_persistent_def tr_elems_def)
  moreover from e2 have "array_size (tr_persistent T') = length ys"
    by (simp add: array_size_def tr_persistent_def tr_elems_def impl_data_length)
  moreover from xs have "array_size P = length xs"
    by (simp add: array_size_def array_elems_def impl_data_length)
  moreover from same xs have "array_elems m2 P = Inr xs" by (simp add: array_elems_def)
  moreover from same have "\<forall>index. array_at m2 P index = array_at m P index"
    by (simp add: array_at_def impl_get_def)
  ultimately show ?thesis using r by blast
qed


theorem structural_independence_witness:
  "\<not> isl (tr_apply_all (snd (transient example_memory example_array))
            (fst (transient example_memory example_array)) [PushBack 4])
   \<and> array_size example_array = 3
   \<and> array_elems example_memory example_array = Inr [1, 2, 3]
   \<and> array_elems
        (snd (projr (tr_apply_all (snd (transient example_memory example_array))
            (fst (transient example_memory example_array)) [PushBack 4])))
        example_array = Inr [1, 2, 3]
   \<and> array_size (tr_persistent
        (fst (projr (tr_apply_all (snd (transient example_memory example_array))
            (fst (transient example_memory example_array)) [PushBack 4])))) = 4
   \<and> array_elems
        (snd (projr (tr_apply_all (snd (transient example_memory example_array))
            (fst (transient example_memory example_array)) [PushBack 4])))
        (tr_persistent
          (fst (projr (tr_apply_all (snd (transient example_memory example_array))
            (fst (transient example_memory example_array)) [PushBack 4]))))
       = Inr [1, 2, 3, 4]"
proof -
  have init: "initialised example_memory"
    using noone_token by (simp add: initialised_def example_memory_def allocated_def)
  have v: "valid_impl example_memory (array_impl example_array)"
    by (simp add: valid_impl_def example_memory_def example_array_def allocated_def ownee_ctor_def)
  have xs: "array_elems example_memory example_array = Inr [1, 2, 3]"
    by (simp add: array_elems_def impl_data_def example_memory_def example_array_def)
  have t: "transient example_memory example_array
      = (fst (transient example_memory example_array), snd (transient example_memory example_array))"
    by simp
  have ys: "ops_elems [PushBack 4] [1, 2, 3] = Some [1, 2, 3, 4 :: int]" by simp
  from structural_independence [OF init v xs t ys] xs show ?thesis by auto
qed

text \<open>
  C7. Let \<open>P\<close> be an array on a valid handle, with elements \<open>xs\<close>, and \<open>T\<close> the transient
  derived from it. Both \<open>persistent() const&\<close> and \<open>persistent() &&\<close> of \<open>T\<close> give an array
  of the size of \<open>P\<close> with the elements of \<open>P\<close> at every index; after the first, \<open>T\<close> is as
  it was, a valid transient with the elements \<open>xs\<close>.
\<close>

theorem round_trip:
  assumes init: "initialised m" and v: "valid_impl m (array_impl P)"
    and xs: "array_elems m P = Inr xs"
    and tr: "transient m P = (T, m1)"
  shows "array_size (tr_persistent T) = array_size P
      \<and> array_elems m1 (tr_persistent T) = Inr xs
      \<and> (\<forall>index. array_at m1 (tr_persistent T) index = array_at m P index)
      \<and> array_size (tr_persistent_move T) = array_size P
      \<and> array_elems m1 (tr_persistent_move T) = Inr xs
      \<and> (\<forall>index. array_at m1 (tr_persistent_move T) index = array_at m P index)
      \<and> valid_transient m1 T \<and> tr_elems m1 T = Inr xs"
proof -
  from transient_valid [OF init v tr] have vt: "valid_transient m1 T"
    and ti: "tr_impl T = array_impl P" and nodes: "mem_nodes m1 = mem_nodes m"
    by simp_all
  from ti nodes have same: "impl_data m1 (tr_impl T) = impl_data m (array_impl P)"
    by (simp add: impl_data_def)
  with xs vt ti show ?thesis
    by (simp add: array_elems_def array_size_def array_at_def impl_get_def tr_elems_def
        tr_persistent_def tr_persistent_move_def)
qed

theorem round_trip_witness:
  "array_elems example_memory example_array = Inr [1, 2, 3]
   \<and> array_size (tr_persistent (fst (transient example_memory example_array))) = 3
   \<and> array_elems (snd (transient example_memory example_array))
        (tr_persistent (fst (transient example_memory example_array))) = Inr [1, 2, 3]
   \<and> array_size (tr_persistent_move (fst (transient example_memory example_array))) = 3
   \<and> array_elems (snd (transient example_memory example_array))
        (tr_persistent_move (fst (transient example_memory example_array))) = Inr [1, 2, 3]"
proof -
  have init: "initialised example_memory"
    using noone_token by (simp add: initialised_def example_memory_def allocated_def)
  have v: "valid_impl example_memory (array_impl example_array)"
    by (simp add: valid_impl_def example_memory_def example_array_def allocated_def ownee_ctor_def)
  have xs: "array_elems example_memory example_array = Inr [1, 2, 3]"
    by (simp add: array_elems_def impl_data_def example_memory_def example_array_def)
  have t: "transient example_memory example_array
      = (fst (transient example_memory example_array), snd (transient example_memory example_array))"
    by simp
  have sz: "array_size example_array = 3" by (simp add: array_size_def example_array_def)
  from round_trip [OF init v xs t] xs sz show ?thesis by simp
qed

text \<open>
  C8. On a valid transient \<open>T\<close> with elements \<open>xs\<close>, \<open>take(k)\<close> goes through and leaves the
  first \<open>min k (size())\<close> elements: for \<open>k\<close> at least the size, the size and all elements
  are as before; for \<open>k\<close> below the size, the size is \<open>k\<close> and the first \<open>k\<close> elements are
  as before. For \<open>T = [1, 2, 3, 4]\<close>, \<open>take(2)\<close> leaves \<open>[1, 2]\<close>.
\<close>

theorem take_truncates:
  assumes vt: "valid_transient m T" and xs: "tr_elems m T = Inr xs"
  shows "\<exists>T' m'. tr_take m T k = Inr (T', m')
      \<and> tr_size T' = min k (tr_size T)
      \<and> tr_elems m' T' = Inr (take (min k (tr_size T)) xs)
      \<and> (tr_size T \<le> k \<longrightarrow> tr_size T' = tr_size T \<and> tr_elems m' T' = Inr xs)
      \<and> (k < tr_size T \<longrightarrow> tr_size T' = k
            \<and> (\<forall>index<k. tr_at m' T' index = Inr (xs ! index)))"
proof -
  from xs have len: "length xs = tr_size T"
    by (simp add: tr_elems_def tr_size_def impl_data_length)
  have "op_elems (Take k) xs = Some (take (min k (tr_size T)) xs)" by (simp add: len)
  from tr_apply_ok [OF vt xs this] obtain T' m' where
    r: "tr_take m T k = Inr (T', m')" and e: "tr_elems m' T' = Inr (take (min k (tr_size T)) xs)"
    and sz: "tr_size T' = length (take (min k (tr_size T)) xs)"
    by auto
  from sz len have sz': "tr_size T' = min k (tr_size T)" by simp
  from e len have at: "\<forall>index<k. k < tr_size T \<longrightarrow> tr_at m' T' index = Inr (xs ! index)"
    by (simp add: tr_at_def impl_get_def tr_elems_def)
  from r e sz' at len show ?thesis by (auto simp: min_def)
qed

theorem take_truncates_witness:
  "tr_elems example_memory_tr example_transient = Inr [1, 2, 3, 4]
   \<and> \<not> isl (tr_take example_memory_tr example_transient 2)
   \<and> tr_size (fst (projr (tr_take example_memory_tr example_transient 2))) = 2
   \<and> tr_elems (snd (projr (tr_take example_memory_tr example_transient 2)))
        (fst (projr (tr_take example_memory_tr example_transient 2))) = Inr [1, 2]
   \<and> \<not> isl (tr_take example_memory_tr example_transient 7)
   \<and> tr_size (fst (projr (tr_take example_memory_tr example_transient 7))) = 4
   \<and> tr_elems (snd (projr (tr_take example_memory_tr example_transient 7)))
        (fst (projr (tr_take example_memory_tr example_transient 7))) = Inr [1, 2, 3, 4]"
proof -
  have vt: "valid_transient example_memory_tr example_transient"
    using noone_token
    by (simp add: valid_transient_def valid_impl_def example_memory_tr_def example_transient_def
        allocated_def owner_edit_def)
  have xs: "tr_elems example_memory_tr example_transient = Inr [1, 2, 3, 4]"
    by (simp add: tr_elems_def impl_data_def example_memory_tr_def example_transient_def)
  have sz: "tr_size example_transient = 4" by (simp add: tr_size_def example_transient_def)
  from take_truncates [OF vt xs, of 2] take_truncates [OF vt xs, of 7] xs sz
  show ?thesis by auto
qed

end
